theory Spec2Isabelle
  imports Main "HOL-Library.Multiset"
begin

section \<open>Detailed reports (TogglAPI.getDetailedReport)\<close>

text \<open>
  A record of a detailed report as the code reads it: the entry id and the duration
  \<open>dur\<close>. The remaining columns of the remote record are carried in \<open>d_rest\<close>.
\<close>

record detailed =
  d_id :: int
  d_dur :: int
  d_rest :: string

record report =
  total_count :: int
  total_grand :: int
  data :: "detailed list"

text \<open>
  \<open>Array.prototype.findIndex\<close>: the index of the first element that satisfies the
  predicate, \<open>-1\<close> when there is none.
\<close>

fun findIndex_from :: "('a \<Rightarrow> bool) \<Rightarrow> 'a list \<Rightarrow> int \<Rightarrow> int" where
  "findIndex_from P [] i = - 1"
| "findIndex_from P (x # xs) i = (if P x then i else findIndex_from P xs (i + 1))"

definition findIndex :: "('a \<Rightarrow> bool) \<Rightarrow> 'a list \<Rightarrow> int" where
  "findIndex P xs = findIndex_from P xs 0"

text \<open>
  \<open>Array.prototype.filter\<close> with the three-argument callback
  \<open>(el, index, self)\<close>.
\<close>

fun filter_from :: "('a \<Rightarrow> int \<Rightarrow> 'a list \<Rightarrow> bool) \<Rightarrow> 'a list \<Rightarrow> int \<Rightarrow> 'a list \<Rightarrow> 'a list" where
  "filter_from f self i [] = []"
| "filter_from f self i (x # xs) =
     (if f x i self then x # filter_from f self (i + 1) xs
      else filter_from f self (i + 1) xs)"

definition filter_js :: "('a \<Rightarrow> int \<Rightarrow> 'a list \<Rightarrow> bool) \<Rightarrow> 'a list \<Rightarrow> 'a list" where
  "filter_js f xs = filter_from f xs 0 xs"

text \<open>The callback of the deduplication at the end of \<open>getDetailedReport\<close>.\<close>

definition is_first_of_id :: "detailed \<Rightarrow> int \<Rightarrow> detailed list \<Rightarrow> bool" where
  "is_first_of_id el index self = (index = findIndex (\<lambda>el2. d_id el2 = d_id el) self)"

definition dedup :: "detailed list \<Rightarrow> detailed list" where
  "dedup xs = filter_js is_first_of_id xs"

text \<open>\<open>data.reduce((acc, curr) => acc + curr.dur, 0)\<close>\<close>

definition sum_dur :: "detailed list \<Rightarrow> int" where
  "sum_dur xs = foldl (\<lambda>acc curr. acc + d_dur curr) 0 xs"

text \<open>
  \<open>getDetailedReport\<close>. The argument is the outcome of the queued call of
  \<open>reports.detailsAll\<close>: \<open>Inl\<close> when that promise rejects (the rejection passes
  through the \<open>await\<close>), \<open>Inr\<close> the combined pages otherwise.
\<close>

definition getDetailedReport :: "string + detailed list \<Rightarrow> string + report" where
  "getDetailedReport fetched =
     (case fetched of
        Inl err \<Rightarrow> Inl err
      | Inr raw \<Rightarrow>
          (let completeReport = \<lparr>total_count = 0, total_grand = 0, data = []\<rparr>;
               completeReport = completeReport\<lparr>data := raw\<rparr>;
               completeReport = completeReport\<lparr>total_count := int (length (data completeReport))\<rparr>;
               completeReport = completeReport\<lparr>total_grand := sum_dur (data completeReport)\<rparr>;
               completeReport = completeReport\<lparr>data := dedup (data completeReport)\<rparr>
           in Inr completeReport))"

section \<open>The service (TogglService)\<close>

datatype ApiStatus = AVAILABLE | NO_TOKEN | UNREACHABLE | UNTESTED

text \<open>
  The response of \<open>timeEntries.current()\<close>, with the fields the service reads. A field
  that may be \<open>null\<close> or \<open>undefined\<close> is an option, \<open>None\<close> for both: the code
  tests them with \<open>!=\<close> and \<open>||\<close>, which do not tell the two apart.
\<close>

record timer =
  t_id :: int
  t_wid :: int
  t_pid :: "int option"
  t_description :: "string option"
  t_start :: string
  t_stop :: "string option"
  t_end :: "string option"
  t_duration :: int
  t_tags :: "string list option"

record project =
  p_id :: int
  p_name :: string
  p_hex_color :: string

text \<open>The \<open>TimeEntry\<close> that \<open>responseToTimeEntry\<close> builds for the store.\<close>

record time_entry =
  e_description :: "string option"
  e_pid :: "int option"
  e_id :: int
  e_duration :: int
  e_start :: string
  e_end :: "string option"
  e_project :: string
  e_project_hex_color :: string
  e_tags :: "string list option"

text \<open>How a promise settles: with a value, or rejected with a reason.\<close>

datatype 'a promise = Fulfilled 'a | Rejected string

datatype api_call =
    TestConnection
  | CurrentTimer
  | DailySummary
  | StopTimer int

datatype async_call = UpdateCurrentTimer | PreloadWorkspaceData

text \<open>
  What a method does beyond changing the fields of the service, in the order of the
  code: notices, console output, writes to the stores, calls of the remote API, the
  interval timer, asynchronous methods called without \<open>await\<close>, and promises that
  reject with no handler attached.
\<close>

datatype effect =
    Notice string
  | ConsoleError string
  | ConsoleDebug string
  | CurrentTimerSet "time_entry option"
  | ApiStatusSet ApiStatus
  | RemoteCall api_call
  | ClearInterval "nat option"
  | SetInterval nat
  | RegisterInterval nat
  | Launched async_call
  | UnhandledRejection string

record service =
  apiAvailable :: ApiStatus
  currentTimeEntry :: "timer option"
  currentTimerInterval :: "nat option"
  cachedProjects :: "project list"
  statusBarText :: string
  effects :: "effect list"

text \<open>
  What a method reads from outside the service: the settings (the id of the configured
  workspace, which \<open>getWorkspaces\<close> stores as the decimal string of the numeric id and
  \<open>!=\<close> converts back to a number, and the character limit of the status bar) and the
  clock, \<open>new Date().getTime()\<close> in milliseconds.
\<close>

record env =
  workspaceId :: int
  charLimitStatusBar :: int
  now_ms :: int

definition emit :: "effect list \<Rightarrow> service \<Rightarrow> service" where
  "emit es s = s\<lparr>effects := effects s @ es\<rparr>"

subsection \<open>isTagsChanged\<close>

text \<open>\<open>Array.prototype.indexOf\<close>: the first index of the element, \<open>-1\<close> when absent.\<close>

definition indexOf :: "'a list \<Rightarrow> 'a \<Rightarrow> int" where
  "indexOf xs x = findIndex (\<lambda>y. y = x) xs"

text \<open>\<open>tags || []\<close>\<close>

definition or_empty :: "'a list option \<Rightarrow> 'a list" where
  "or_empty tags = (case tags of None \<Rightarrow> [] | Some ts \<Rightarrow> ts)"

text \<open>The \<open>for\<close> loop of \<open>isTagsChanged\<close> over the old tags.\<close>

fun tags_loop :: "string list \<Rightarrow> string list \<Rightarrow> bool" where
  "tags_loop [] new_tags = False"
| "tags_loop (tag # rest) new_tags =
     (if indexOf new_tags tag < 0 then True else tags_loop rest new_tags)"

definition isTagsChanged :: "string list option \<Rightarrow> string list option \<Rightarrow> bool" where
  "isTagsChanged old_tags new_tags =
     (let old_tags = or_empty old_tags;
          new_tags = or_empty new_tags
      in if length old_tags \<noteq> length new_tags then True
         else tags_loop old_tags new_tags)"

subsection \<open>getTimerDuration and the status bar\<close>

text \<open>\<open>Math.round(new Date().getTime() / 1000)\<close>: to the nearest second, halves up.\<close>

definition epoch_time :: "int \<Rightarrow> int" where
  "epoch_time ms = (ms + 500) div 1000"

text \<open>Truthiness of a string field: neither absent nor the empty string.\<close>

definition truthy :: "string option \<Rightarrow> bool" where
  "truthy v = (case v of None \<Rightarrow> False | Some str \<Rightarrow> str \<noteq> [])"

definition getTimerDuration :: "env \<Rightarrow> timer \<Rightarrow> int" where
  "getTimerDuration e timeEntry =
     (if truthy (t_stop timeEntry) then t_duration timeEntry
      else epoch_time (now_ms e) + t_duration timeEntry)"

text \<open>
  The text a template literal prints for an integer: its decimal digits, after a minus
  sign when it is negative.
\<close>

definition digit_char :: "nat \<Rightarrow> char" where
  "digit_char d = char_of (of_char CHR ''0'' + d)"

fun decimal :: "nat \<Rightarrow> string" where
  "decimal n = (if 10 \<le> n then decimal (n div 10) @ [digit_char (n mod 10)] else [digit_char n])"

definition number_text :: "int \<Rightarrow> string" where
  "number_text i = (if 0 \<le> i then decimal (nat i) else CHR ''-'' # decimal (nat (- i)))"

text \<open>
  \<open>title.slice(0, end)\<close>: a negative end counts from the end of the string, and the end
  is clamped to the string.
\<close>

definition slice0 :: "string \<Rightarrow> int \<Rightarrow> string" where
  "slice0 str end =
     (let len = int (length str);
          to = (if end < 0 then max (len + end) 0 else min end len)
      in take (nat to) str)"

definition updateStatusBarText :: "env \<Rightarrow> service \<Rightarrow> service" where
  "updateStatusBarText e s =
     (let timer_msg =
        (case currentTimeEntry s of
           None \<Rightarrow> ''-''
         | Some entry \<Rightarrow>
             (let title = (case t_description entry of
                             None \<Rightarrow> ''No description''
                           | Some d \<Rightarrow> if d \<noteq> [] then d else ''No description'');
                  title = (if int (length title) > charLimitStatusBar e
                           then slice0 title (charLimitStatusBar e - 3) @ ''...''
                           else title);
                  duration = getTimerDuration e entry;
                  minutes = duration div 60;
                  time_string = number_text minutes @ '' minute'' @
                                (if minutes \<noteq> 1 then ''s'' else '''')
              in title @ '' ('' @ time_string @ '')''))
      in s\<lparr>statusBarText := ''Timer: '' @ timer_msg\<rparr>)"

subsection \<open>responseToTimeEntry\<close>

definition responseToTimeEntry :: "service \<Rightarrow> timer \<Rightarrow> time_entry" where
  "responseToTimeEntry s response =
     (let project = find (\<lambda>p. Some (p_id p) = t_pid response) (cachedProjects s)
      in \<lparr>e_description = t_description response,
          e_pid = t_pid response,
          e_id = t_id response,
          e_duration = t_duration response,
          e_start = t_start response,
          e_end = t_end response,
          e_project =
            (if t_pid response \<noteq> None
             then (case project of Some p \<Rightarrow> p_name p | None \<Rightarrow> ''(Unknown)'')
             else ''(No project)''),
          e_project_hex_color =
            (case project of Some p \<Rightarrow> p_hex_color p | None \<Rightarrow> ''var(--text-muted)''),
          e_tags = t_tags response\<rparr>)"

subsection \<open>updateCurrentTimer\<close>

definition isApiAvailable :: "service \<Rightarrow> bool" where
  "isApiAvailable s = (if apiAvailable s = AVAILABLE then True else False)"

text \<open>
  The filter on the workspace (lines 402-410): the fetched timer is dropped when its
  workspace is not the configured one and it has a project.
\<close>

definition drop_other_workspace :: "env \<Rightarrow> timer option \<Rightarrow> timer option" where
  "drop_other_workspace e cur =
     (case cur of
        None \<Rightarrow> None
      | Some c \<Rightarrow> if t_wid c \<noteq> workspaceId e \<and> t_pid c \<noteq> None then None else Some c)"

text \<open>
  The comparison of the previous and the current timer (lines 412-441): the flag
  \<open>changed\<close> and the debug line of the case taken.
\<close>

definition detect_change :: "timer option \<Rightarrow> timer option \<Rightarrow> bool \<times> string list" where
  "detect_change prev cur =
     (case cur of
        Some c \<Rightarrow>
          (case prev of
             None \<Rightarrow> (True, [''Case 1: no timer -> active timer''])
           | Some p \<Rightarrow>
               if t_id p \<noteq> t_id c
               then (True, [''Case 2: old timer -> new timer (new ID)''])
               else if t_description p \<noteq> t_description c \<or>
                       t_pid p \<noteq> t_pid c \<or>
                       t_start p \<noteq> t_start c \<or>
                       isTagsChanged (t_tags p) (t_tags c)
                    then (True, [''Case 3: timer details update (same ID)''])
                    else (False, []))
      | None \<Rightarrow>
          (case prev of
             Some p \<Rightarrow> (True, [''Case 4: active timer -> no timer''])
           | None \<Rightarrow> (False, [])))"

text \<open>
  One reconciliation pass. \<open>fetched\<close> is the outcome of \<open>getCurrentTimer\<close>:
  \<open>Inl\<close> the error it throws, \<open>Inr\<close> the running timer or none.
\<close>

definition updateCurrentTimer :: "env \<Rightarrow> string + timer option \<Rightarrow> service \<Rightarrow> service" where
  "updateCurrentTimer e fetched s =
     (if \<not> isApiAvailable s then s
      else
        (let prev = currentTimeEntry s;
             s = emit [RemoteCall CurrentTimer] s
         in case fetched of
              Inl err \<Rightarrow> emit [ConsoleError ''Error reaching Toggl API'', ConsoleError err] s
            | Inr cur \<Rightarrow>
                (let cur = drop_other_workspace e cur;
                     (changed, dbg) = detect_change prev cur;
                     s = emit (map ConsoleDebug dbg) s;
                     s = (if changed
                          then emit [CurrentTimerSet (map_option (responseToTimeEntry s) cur),
                                     RemoteCall DailySummary] s
                          else s);
                     s = s\<lparr>currentTimeEntry := cur\<rparr>
                 in updateStatusBarText e s)))"

subsection \<open>setToken and stopTimer\<close>

definition noticeAPINotAvailable :: "service \<Rightarrow> service" where
  "noticeAPINotAvailable s =
     (case apiAvailable s of
        NO_TOKEN \<Rightarrow> emit [Notice ''No Toggl Track API token is set.''] s
      | UNREACHABLE \<Rightarrow>
          emit [Notice (''The Toggl Track API is unreachable. Either the Toggl services '' @
                        ''are down, or your API token is incorrect.'')] s
      | _ \<Rightarrow> s)"

text \<open>
  \<open>TogglAPI.setToken\<close>, an \<open>async\<close> method: it creates the client, awaits
  \<open>testConnection\<close> and throws when that fails. Whatever it throws rejects the promise
  it returns. \<open>probe_ok\<close> says whether \<open>workspaces.list()\<close> resolves.
\<close>

definition api_setToken :: "bool \<Rightarrow> unit promise" where
  "api_setToken probe_ok =
     (if probe_ok then Fulfilled () else Rejected ''Cannot connect to Toggl API.'')"

text \<open>
  \<open>startTimerInterval\<close>: the first pass is called without \<open>await\<close>, then the interval
  is set and registered; \<open>handle\<close> is what \<open>window.setInterval\<close> returns.
\<close>

definition startTimerInterval :: "nat \<Rightarrow> service \<Rightarrow> service" where
  "startTimerInterval handle s =
     (let s = emit [Launched UpdateCurrentTimer] s;
          s = emit [SetInterval handle] (s\<lparr>currentTimerInterval := Some handle\<rparr>)
      in emit [RegisterInterval handle] s)"

text \<open>
  \<open>TogglService.setToken\<close>. The call of \<open>TogglAPI.setToken\<close> has no \<open>await\<close>: its
  promise is dropped, so its rejection is not an exception of the \<open>try\<close> block and
  reaches no handler. \<open>ctor_throws\<close> says whether the constructor of \<open>TogglAPI\<close>
  throws, the one way into the \<open>catch\<close> block that the model keeps.
\<close>

definition setToken :: "bool \<Rightarrow> bool \<Rightarrow> nat \<Rightarrow> string option \<Rightarrow> service \<Rightarrow> service" where
  "setToken ctor_throws probe_ok handle token s =
     (let s = emit [ClearInterval (currentTimerInterval s)] s;
          s =
            (if token \<noteq> None \<and> token \<noteq> Some ''''
             then
               (if ctor_throws
                then
                  (let s = emit [ConsoleError ''Cannot connect to toggl API.''] s;
                       s = s\<lparr>statusBarText := ''Cannot connect to Toggl API''\<rparr>;
                       s = s\<lparr>apiAvailable := UNREACHABLE\<rparr>
                   in noticeAPINotAvailable s)
                else
                  (let s = emit [RemoteCall TestConnection] s;
                       s = (case api_setToken probe_ok of
                              Fulfilled _ \<Rightarrow> s
                            | Rejected reason \<Rightarrow> emit [UnhandledRejection reason] s);
                       s = s\<lparr>apiAvailable := AVAILABLE\<rparr>;
                       s = startTimerInterval handle s
                   in emit [Launched PreloadWorkspaceData] s))
             else
               (let s = s\<lparr>statusBarText := ''Open settings to add a Toggl API token.''\<rparr>;
                    s = s\<lparr>apiAvailable := NO_TOKEN\<rparr>
                in noticeAPINotAvailable s))
      in emit [ApiStatusSet (apiAvailable s)] s)"

text \<open>
  \<open>stopTimer\<close>, through \<open>executeIfAPIAvailable\<close>. \<open>stopped\<close> is how the remote
  \<open>timeEntries.stop\<close> settles; the pass in its \<open>then\<close> runs when it is fulfilled, with
  \<open>fetched\<close> the outcome of that pass's fetch.
\<close>

definition stopTimer :: "env \<Rightarrow> unit promise \<Rightarrow> string + timer option \<Rightarrow> service \<Rightarrow> service" where
  "stopTimer e stopped fetched s =
     (if isApiAvailable s
      then
        (case currentTimeEntry s of
           None \<Rightarrow> s
         | Some entry \<Rightarrow>
             (let s = emit [RemoteCall (StopTimer (t_id entry))] s
              in case stopped of
                   Fulfilled _ \<Rightarrow> updateCurrentTimer e fetched s
                 | Rejected reason \<Rightarrow> emit [UnhandledRejection reason] s))
      else noticeAPINotAvailable s)"

text \<open>The effects a call adds to the trace of the service it starts from.\<close>

definition new_effects :: "service \<Rightarrow> service \<Rightarrow> effect list" where
  "new_effects s s' = drop (length (effects s)) (effects s')"

subsection \<open>Sample inputs\<close>

definition sample_env :: env where
  "sample_env = \<lparr>workspaceId = 1, charLimitStatusBar = 10, now_ms = 1700000100000\<rparr>"

definition sample_timer :: timer where
  "sample_timer =
     \<lparr>t_id = 9, t_wid = 1, t_pid = Some 5, t_description = Some ''Writing a long report'',
      t_start = ''2023-11-14T22:13:20+00:00'', t_stop = None, t_end = None,
      t_duration = - 1700000000, t_tags = Some [''a'', ''b'']\<rparr>"

definition sample_service :: service where
  "sample_service =
     \<lparr>apiAvailable = AVAILABLE, currentTimeEntry = None, currentTimerInterval = Some 3,
      cachedProjects = [\<lparr>p_id = 5, p_name = ''Thesis'', p_hex_color = ''#06aaf5''\<rparr>],
      statusBarText = ''Connecting to Toggl...'', effects = []\<rparr>"

section \<open>The request queue\<close>

text \<open>
  Modelled from the spec: the RequestQueue (the class \<open>ApiQueue\<close> that \<open>TogglAPI\<close>
  imports; its file is not among the sources). Operations submitted are executed one at
  a time, in the order of submission; one that is not yet running waits; when the running
  one settles, fulfilled or rejected, its caller receives that outcome and the next
  waiting one begins. There is no priority and no cancellation.

  An operation is named by its submission number and carries the outcome its own promise
  settles with. The history lists what happened, in order.
\<close>

datatype 'a q_event = Begun nat | Settled nat "'a promise"

record 'a queue =
  waiting :: "(nat \<times> 'a promise) list"
  running :: "(nat \<times> 'a promise) option"
  submitted :: nat
  history :: "'a q_event list"

definition empty_queue :: "'a queue" where
  "empty_queue = \<lparr>waiting = [], running = None, submitted = 0, history = []\<rparr>"

text \<open>
  Modelled from the spec: one operation at a time. The first waiting operation begins
  when none is running.
\<close>

definition dequeue :: "'a queue \<Rightarrow> 'a queue" where
  "dequeue q =
     (case running q of
        Some _ \<Rightarrow> q
      | None \<Rightarrow>
          (case waiting q of
             [] \<Rightarrow> q
           | item # rest \<Rightarrow>
               q\<lparr>running := Some item, waiting := rest,
                 history := history q @ [Begun (fst item)]\<rparr>))"

text \<open>
  Modelled from the spec: \<open>enqueue\<close>. The operation, whose promise will settle with
  \<open>outcome\<close>, joins the end of the line and begins at once when the queue is idle.
\<close>

definition enqueue :: "'a promise \<Rightarrow> 'a queue \<Rightarrow> 'a queue" where
  "enqueue outcome q =
     dequeue (q\<lparr>waiting := waiting q @ [(submitted q, outcome)], submitted := Suc (submitted q)\<rparr>)"

text \<open>
  Modelled from the spec: the promise of the running operation settles: the caller receives its outcome, and the
  queue goes on with the next operation, whether the outcome is a value or a rejection.
\<close>

definition settle :: "'a queue \<Rightarrow> 'a queue" where
  "settle q =
     (case running q of
        None \<Rightarrow> q
      | Some (i, outcome) \<Rightarrow>
          dequeue (q\<lparr>running := None, history := history q @ [Settled i outcome]\<rparr>))"

text \<open>What happens to the queue from outside: a submission, or the running promise settling.\<close>

datatype 'a q_action = Enqueue "'a promise" | Settle

definition q_step :: "'a q_action \<Rightarrow> 'a queue \<Rightarrow> 'a queue" where
  "q_step a q = (case a of Enqueue outcome \<Rightarrow> enqueue outcome q | Settle \<Rightarrow> settle q)"

fun q_run :: "'a q_action list \<Rightarrow> 'a queue \<Rightarrow> 'a queue" where
  "q_run [] q = q"
| "q_run (a # as) q = q_run as (q_step a q)"

text \<open>The outcomes of the operations submitted by a sequence of actions, in order.\<close>

fun outcomes :: "'a q_action list \<Rightarrow> 'a promise list" where
  "outcomes [] = []"
| "outcomes (Enqueue outcome # as) = outcome # outcomes as"
| "outcomes (Settle # as) = outcomes as"

text \<open>
  The history of a strictly serial execution of the first \<open>k\<close> operations: each begins
  and settles, with its own outcome, before the next begins.
\<close>

definition serial_history :: "'a promise list \<Rightarrow> nat \<Rightarrow> 'a q_event list" where
  "serial_history outs k =
     concat (map (\<lambda>(i, outcome). [Begun i, Settled i outcome]) (take k (enumerate 0 outs)))"

text \<open>
  The shape of the queue once the first \<open>k\<close> of the submitted operations have settled:
  idle when there is no other, else running operation \<open>k\<close> with the later ones waiting
  in order.
\<close>

definition q_inv :: "'a promise list \<Rightarrow> nat \<Rightarrow> 'a queue \<Rightarrow> bool" where
  "q_inv outs k q =
     (submitted q = length outs \<and> k \<le> length outs \<and>
      (if k = length outs
       then running q = None \<and> waiting q = [] \<and> history q = serial_history outs k
       else running q = Some (k, outs ! k) \<and>
            waiting q = drop (Suc k) (enumerate 0 outs) \<and>
            history q = serial_history outs k @ [Begun k]))"

text \<open>No operation begins before every operation submitted earlier has settled.\<close>

definition begins_after_earlier_settled :: "'a q_event list \<Rightarrow> bool" where
  "begins_after_earlier_settled h =
     (\<forall>pre post j. h = pre @ Begun j # post \<longrightarrow>
        (\<forall>i<j. \<exists>outcome. Settled i outcome \<in> set pre))"

section \<open>Properties of the detailed report\<close>

subsection \<open>Array helpers\<close>

lemma findIndex_from_first:
  "k < length xs \<Longrightarrow> P (xs ! k) \<Longrightarrow>
     (findIndex_from P xs i = i + int k) = (\<forall>j<k. \<not> P (xs ! j))"
proof (induction xs arbitrary: i k)
  case Nil
  then show ?case by simp
next
  case (Cons x xs)
  show ?case
  proof (cases k)
    case 0
    with Cons.prems show ?thesis by simp
  next
    case (Suc k')
    with Cons.prems have k': "k' < length xs" "P (xs ! k')" by simp_all
    show ?thesis
    proof (cases "P x")
      case True
      then show ?thesis using Suc by auto
    next
      case False
      have "(findIndex_from P xs (i + 1) = (i + 1) + int k') = (\<forall>j<k'. \<not> P (xs ! j))"
        using Cons.IH [OF k'] .
      moreover have "(\<forall>j<k. \<not> P ((x # xs) ! j)) = (\<forall>j<k'. \<not> P (xs ! j))"
        using False Suc by (auto simp: nth_Cons split: nat.splits simp: less_Suc_eq_0_disj)
      ultimately show ?thesis using False Suc by (simp add: add.assoc)
    qed
  qed
qed

lemma findIndex_first:
  "k < length xs \<Longrightarrow> P (xs ! k) \<Longrightarrow> (findIndex P xs = int k) = (\<forall>j<k. \<not> P (xs ! j))"
  using findIndex_from_first [of k xs P 0] by (simp add: findIndex_def)

lemma filter_from_nth:
  "filter_from f (pre @ rest) (int (length pre)) rest =
     map (\<lambda>k. (pre @ rest) ! k)
       (filter (\<lambda>k. f ((pre @ rest) ! k) (int k) (pre @ rest))
          [length pre ..< length pre + length rest])"
proof (induction rest arbitrary: pre)
  case Nil
  then show ?case by simp
next
  case (Cons x rest)
  have eq: "int (length pre) + 1 = int (length (pre @ [x]))" by simp
  have ih: "filter_from f (pre @ x # rest) (int (length pre) + 1) rest =
    map (\<lambda>k. (pre @ x # rest) ! k)
       (filter (\<lambda>k. f ((pre @ x # rest) ! k) (int k) (pre @ x # rest))
          [Suc (length pre) ..< Suc (length pre) + length rest])"
    using Cons.IH [of "pre @ [x]"] unfolding eq by simp
  have up: "[length pre ..< length pre + length (x # rest)]
      = length pre # [Suc (length pre) ..< Suc (length pre) + length rest]"
  proof -
    have len: "length pre + length (x # rest) = Suc (length pre) + length rest" by simp
    have "length pre < Suc (length pre) + length rest" by simp
    then show ?thesis unfolding len by (rule upt_conv_Cons)
  qed
  show ?case
    unfolding up by (simp add: ih)
qed

lemma filter_js_nth:
  "filter_js f xs = map (\<lambda>k. xs ! k) (filter (\<lambda>k. f (xs ! k) (int k) xs) [0 ..< length xs])"
  using filter_from_nth [of f "[]" xs] by (simp add: filter_js_def)

subsection \<open>Deduplication keeps the first record of every id\<close>

lemma dedup_nth:
  "dedup xs =
     map (\<lambda>k. xs ! k)
       (filter (\<lambda>k. \<forall>j<k. d_id (xs ! j) \<noteq> d_id (xs ! k)) [0 ..< length xs])"
proof -
  have "filter (\<lambda>k. is_first_of_id (xs ! k) (int k) xs) [0 ..< length xs]
      = filter (\<lambda>k. \<forall>j<k. d_id (xs ! j) \<noteq> d_id (xs ! k)) [0 ..< length xs]"
  proof (rule filter_cong [OF refl])
    fix k assume "k \<in> set [0 ..< length xs]"
    then have k: "k < length xs" by simp
    show "is_first_of_id (xs ! k) (int k) xs = (\<forall>j<k. d_id (xs ! j) \<noteq> d_id (xs ! k))"
      using findIndex_first [of k xs "\<lambda>el2. d_id el2 = d_id (xs ! k)", OF k]
      by (auto simp: is_first_of_id_def)
  qed
  then show ?thesis by (simp add: dedup_def filter_js_nth)
qed

lemma dedup_distinct: "distinct (map d_id (dedup xs))"
proof -
  let ?ks = "filter (\<lambda>k. \<forall>j<k. d_id (xs ! j) \<noteq> d_id (xs ! k)) [0 ..< length xs]"
  have "inj_on (\<lambda>k. d_id (xs ! k)) (set ?ks)"
  proof (rule inj_onI)
    fix a b
    assume a: "a \<in> set ?ks" and b: "b \<in> set ?ks" and e: "d_id (xs ! a) = d_id (xs ! b)"
    show "a = b"
    proof (rule ccontr)
      assume "a \<noteq> b"
      then consider "a < b" | "b < a" by linarith
      then show False using a b e by cases auto
    qed
  qed
  then have "distinct (map (\<lambda>k. d_id (xs ! k)) ?ks)"
    by (simp add: distinct_map)
  then show ?thesis by (simp add: dedup_nth comp_def)
qed

lemma dedup_ids: "d_id ` set (dedup xs) = d_id ` set xs"
proof
  show "d_id ` set (dedup xs) \<subseteq> d_id ` set xs"
    by (auto simp: dedup_nth)
next
  show "d_id ` set xs \<subseteq> d_id ` set (dedup xs)"
  proof
    fix i assume "i \<in> d_id ` set xs"
    then have ex: "\<exists>k. k < length xs \<and> d_id (xs ! k) = i"
      by (auto simp: in_set_conv_nth)
    define k where "k = (LEAST k. k < length xs \<and> d_id (xs ! k) = i)"
    have k: "k < length xs \<and> d_id (xs ! k) = i"
      unfolding k_def using ex by (rule LeastI_ex)
    have least: "\<not> (j < length xs \<and> d_id (xs ! j) = i)" if "j < k" for j
      using that not_less_Least unfolding k_def by blast
    have "\<forall>j<k. d_id (xs ! j) \<noteq> d_id (xs ! k)"
      using k least by auto
    with k have "xs ! k \<in> set (dedup xs)"
      by (auto simp: dedup_nth)
    with k show "i \<in> d_id ` set (dedup xs)" by force
  qed
qed

lemma sum_dur_eq: "sum_dur xs = sum_list (map d_dur xs)"
proof -
  have "foldl (\<lambda>acc curr. acc + d_dur curr) a xs = a + sum_list (map d_dur xs)" for a
    by (induction xs arbitrary: a) (simp_all add: add.assoc)
  then show ?thesis by (simp add: sum_dur_def)
qed

lemma getDetailedReport_Inr:
  "getDetailedReport (Inr raw) =
     Inr \<lparr>total_count = int (length raw), total_grand = sum_dur raw, data = dedup raw\<rparr>"
  by (simp add: getDetailedReport_def)

text \<open>
  C5. After assembly of a detailed report no two records of \<open>data\<close> share an id, every
  id of the raw sequence is still there, and \<open>data\<close> is exactly the records at the
  positions of the raw sequence that hold the first occurrence of their id, in increasing
  position (so in their original relative order).
\<close>

theorem getDetailedReport_dedup_first_occurrences:
  "\<exists>rep. getDetailedReport (Inr raw) = Inr rep \<and>
     distinct (map d_id (data rep)) \<and>
     d_id ` set (data rep) = d_id ` set raw \<and>
     data rep =
       map (\<lambda>k. raw ! k)
         (filter (\<lambda>k. \<forall>j<k. d_id (raw ! j) \<noteq> d_id (raw ! k)) [0 ..< length raw])"
proof -
  let ?rep = "\<lparr>total_count = int (length raw), total_grand = sum_dur raw, data = dedup raw\<rparr>"
  have "getDetailedReport (Inr raw) = Inr ?rep"
    by (rule getDetailedReport_Inr)
  moreover have "distinct (map d_id (data ?rep))"
    by (simp add: dedup_distinct)
  moreover have "d_id ` set (data ?rep) = d_id ` set raw"
    by (simp add: dedup_ids)
  moreover have "data ?rep =
       map (\<lambda>k. raw ! k)
         (filter (\<lambda>k. \<forall>j<k. d_id (raw ! j) \<noteq> d_id (raw ! k)) [0 ..< length raw])"
    using dedup_nth [of raw] by simp
  ultimately show ?thesis by blast
qed

theorem getDetailedReport_dedup_first_occurrences_witness:
  "\<exists>rep. getDetailedReport
       (Inr [\<lparr>d_id = 1, d_dur = 10, d_rest = ''a''\<rparr>, \<lparr>d_id = 2, d_dur = 20, d_rest = ''b''\<rparr>,
             \<lparr>d_id = 2, d_dur = 20, d_rest = ''c''\<rparr>, \<lparr>d_id = 3, d_dur = 30, d_rest = ''d''\<rparr>,
             \<lparr>d_id = 4, d_dur = 40, d_rest = ''e''\<rparr>]) = Inr rep \<and>
     distinct (map d_id (data rep)) \<and>
     data rep =
       [\<lparr>d_id = 1, d_dur = 10, d_rest = ''a''\<rparr>, \<lparr>d_id = 2, d_dur = 20, d_rest = ''b''\<rparr>,
        \<lparr>d_id = 3, d_dur = 30, d_rest = ''d''\<rparr>, \<lparr>d_id = 4, d_dur = 40, d_rest = ''e''\<rparr>]"
  using getDetailedReport_dedup_first_occurrences
    [of "[\<lparr>d_id = 1, d_dur = 10, d_rest = ''a''\<rparr>, \<lparr>d_id = 2, d_dur = 20, d_rest = ''b''\<rparr>,
          \<lparr>d_id = 2, d_dur = 20, d_rest = ''c''\<rparr>, \<lparr>d_id = 3, d_dur = 30, d_rest = ''d''\<rparr>,
          \<lparr>d_id = 4, d_dur = 40, d_rest = ''e''\<rparr>]"]
  by (simp add: getDetailedReport_def dedup_def filter_js_def is_first_of_id_def findIndex_def)

text \<open>
  C1. The totals are taken from the raw sequence, before the deduplication: on two
  records with the same id the report counts both and adds both durations, while
  \<open>data\<close> holds one record.
\<close>

theorem getDetailedReport_totals_count_duplicates:
  "getDetailedReport
     (Inr [\<lparr>d_id = 7, d_dur = 60, d_rest = ''''\<rparr>, \<lparr>d_id = 7, d_dur = 60, d_rest = ''''\<rparr>]) =
   Inr \<lparr>total_count = 2, total_grand = 120,
        data = [\<lparr>d_id = 7, d_dur = 60, d_rest = ''''\<rparr>]\<rparr>"
  by (simp add: getDetailedReport_def sum_dur_def dedup_def filter_js_def is_first_of_id_def
      findIndex_def)

section \<open>Properties of the service\<close>

subsection \<open>Tags and classification\<close>









lemmas sample_defs = sample_env_def sample_timer_def sample_service_def




text \<open>
  C9. In the comparison of tags an absent list counts as the empty list, on either side.
  Two snapshots with the same id, description, project and start, one with no tag list
  and the other with an empty one, are classified as unchanged.
\<close>

theorem isTagsChanged_absent_as_empty:
  "isTagsChanged None new_tags = isTagsChanged (Some []) new_tags \<and>
   isTagsChanged old_tags None = isTagsChanged old_tags (Some []) \<and>
   isTagsChanged None (Some []) = False \<and>
   isTagsChanged (Some []) None = False \<and>
   (t_id p = t_id c \<and> t_description p = t_description c \<and> t_pid p = t_pid c \<and>
    t_start p = t_start c \<and>
    (t_tags p = None \<and> t_tags c = Some [] \<or> t_tags p = Some [] \<and> t_tags c = None) \<longrightarrow>
      detect_change (Some p) (Some c) = (False, []))"
  by (auto simp: isTagsChanged_def detect_change_def or_empty_def split: option.splits)

theorem isTagsChanged_absent_as_empty_witness:
  "isTagsChanged None (Some [''a'']) = isTagsChanged (Some []) (Some [''a'']) \<and>
   detect_change (Some (sample_timer\<lparr>t_tags := None\<rparr>)) (Some (sample_timer\<lparr>t_tags := Some []\<rparr>)) = (False, [])"
  using isTagsChanged_absent_as_empty
    [where new_tags = "Some [''a'']" and p = "sample_timer\<lparr>t_tags := None\<rparr>"
       and c = "sample_timer\<lparr>t_tags := Some []\<rparr>"]
  by simp

subsection \<open>The workspace filter\<close>

text \<open>
  C2 as stated fails. A timer of another workspace that has no project is not dropped: the pass holds it
  afterwards, where a pass that fetched no timer holds none.
\<close>

theorem workspace_filter_counterexample:
  "t_wid (sample_timer\<lparr>t_wid := 2, t_pid := None\<rparr>) \<noteq> workspaceId sample_env \<and>
   updateCurrentTimer sample_env (Inr (Some (sample_timer\<lparr>t_wid := 2, t_pid := None\<rparr>))) sample_service
     \<noteq> updateCurrentTimer sample_env (Inr None) sample_service \<and>
   currentTimeEntry
     (updateCurrentTimer sample_env (Inr (Some (sample_timer\<lparr>t_wid := 2, t_pid := None\<rparr>))) sample_service)
     = Some (sample_timer\<lparr>t_wid := 2, t_pid := None\<rparr>) \<and>
   currentTimeEntry (updateCurrentTimer sample_env (Inr None) sample_service) = None"
  by (simp add: sample_defs updateCurrentTimer_def isApiAvailable_def emit_def
      drop_other_workspace_def detect_change_def updateStatusBarText_def Let_def)

text \<open>
  C2, as the code has it. A fetched timer of another workspace that has a project is
  treated as no timer: the pass is the pass that fetched none. A timer with no project,
  and a timer of the configured workspace, pass the filter.
\<close>

theorem workspace_filter_with_project:
  "(t_wid t \<noteq> workspaceId e \<and> t_pid t \<noteq> None \<longrightarrow>
      updateCurrentTimer e (Inr (Some t)) s = updateCurrentTimer e (Inr None) s) \<and>
   (t_pid t = None \<longrightarrow> drop_other_workspace e (Some t) = Some t) \<and>
   (t_wid t = workspaceId e \<longrightarrow> drop_other_workspace e (Some t) = Some t)"
  by (simp add: updateCurrentTimer_def drop_other_workspace_def)

theorem workspace_filter_with_project_witness:
  "t_wid (sample_timer\<lparr>t_wid := 2\<rparr>) \<noteq> workspaceId sample_env \<and>
   t_pid (sample_timer\<lparr>t_wid := 2\<rparr>) \<noteq> None \<and>
   updateCurrentTimer sample_env (Inr (Some (sample_timer\<lparr>t_wid := 2\<rparr>))) sample_service =
     updateCurrentTimer sample_env (Inr None) sample_service \<and>
   currentTimeEntry
     (updateCurrentTimer sample_env (Inr (Some (sample_timer\<lparr>t_wid := 2\<rparr>))) sample_service) = None"
  using workspace_filter_with_project
    [where t = "sample_timer\<lparr>t_wid := 2\<rparr>" and e = sample_env and s = sample_service]
  by (simp add: sample_defs updateCurrentTimer_def isApiAvailable_def emit_def
      drop_other_workspace_def detect_change_def updateStatusBarText_def Let_def)

subsection \<open>setToken\<close>

text \<open>
  C3. With a non-empty token and a constructor that does not throw, a probe that fails
  leaves the status \<open>AVAILABLE\<close>: the polling starts, no notice is emitted, and the
  rejection of the dropped promise reaches no handler.
\<close>

theorem setToken_available_when_probe_fails:
  "apiAvailable (setToken False False h (Some (ch # tok)) s) = AVAILABLE \<and>
   currentTimerInterval (setToken False False h (Some (ch # tok)) s) = Some h \<and>
   new_effects s (setToken False False h (Some (ch # tok)) s) =
     [ClearInterval (currentTimerInterval s), RemoteCall TestConnection,
      UnhandledRejection ''Cannot connect to Toggl API.'',
      Launched UpdateCurrentTimer, SetInterval h, RegisterInterval h,
      Launched PreloadWorkspaceData, ApiStatusSet AVAILABLE]"
  by (simp add: setToken_def api_setToken_def startTimerInterval_def emit_def new_effects_def)

subsection \<open>getTimerDuration\<close>

lemma epoch_time_nearest: "\<bar>1000 * epoch_time ms - ms\<bar> \<le> 500"
proof -
  define q where "q = (ms + 500) div 1000"
  define r where "r = (ms + 500) mod 1000"
  have "ms + 500 = 1000 * q + r"
    unfolding q_def r_def by simp
  moreover have "0 \<le> r" "r < 1000"
    unfolding r_def by simp_all
  ultimately show ?thesis
    unfolding epoch_time_def q_def [symmetric] by linarith
qed

lemma epoch_time_seconds: "epoch_time (1000 * secs) = secs"
  unfolding epoch_time_def by simp

text \<open>
  C6. For a running entry (no \<open>stop\<close>) the duration is the clock in epoch seconds
  plus the encoded duration; for a stopped entry (a \<open>stop\<close> timestamp) it is the
  encoded duration as it is. With the encoding \<open>-1700000000\<close> at epoch second
  \<open>1700000100\<close> the running entry has run for 100 seconds. The epoch second is the
  millisecond clock rounded to the nearest second.
\<close>

theorem getTimerDuration_dual_encoding:
  "(t_stop t = None \<longrightarrow> getTimerDuration e t = epoch_time (now_ms e) + t_duration t) \<and>
   (\<forall>ts. t_stop t = Some ts \<and> ts \<noteq> [] \<longrightarrow> getTimerDuration e t = t_duration t) \<and>
   (t_stop t = None \<and> now_ms e = 1000 * 1700000100 \<and> t_duration t = - 1700000000 \<longrightarrow>
      getTimerDuration e t = 100) \<and>
   epoch_time (1000 * secs) = secs \<and>
   \<bar>1000 * epoch_time ms - ms\<bar> \<le> 500"
proof -
  have 1: "t_stop t = None \<longrightarrow> getTimerDuration e t = epoch_time (now_ms e) + t_duration t"
    by (simp add: getTimerDuration_def truthy_def)
  have 2: "\<forall>ts. t_stop t = Some ts \<and> ts \<noteq> [] \<longrightarrow> getTimerDuration e t = t_duration t"
    by (simp add: getTimerDuration_def truthy_def)
  have 3: "t_stop t = None \<and> now_ms e = 1000 * 1700000100 \<and> t_duration t = - 1700000000 \<longrightarrow>
      getTimerDuration e t = 100"
  proof
    assume a: "t_stop t = None \<and> now_ms e = 1000 * 1700000100 \<and> t_duration t = - 1700000000"
    then have "getTimerDuration e t = epoch_time (1000 * 1700000100) + (- 1700000000)"
      by (simp add: getTimerDuration_def truthy_def)
    then show "getTimerDuration e t = 100"
      unfolding epoch_time_seconds by simp
  qed
  from 1 2 3 epoch_time_seconds [of secs] epoch_time_nearest [of ms] show ?thesis
    by blast
qed

theorem getTimerDuration_dual_encoding_witness:
  "t_stop sample_timer = None \<and>
   getTimerDuration sample_env sample_timer = 100 \<and>
   t_stop (sample_timer\<lparr>t_stop := Some ''2023-11-14T23:13:20+00:00'', t_duration := 3600\<rparr>)
     = Some ''2023-11-14T23:13:20+00:00'' \<and>
   getTimerDuration sample_env
     (sample_timer\<lparr>t_stop := Some ''2023-11-14T23:13:20+00:00'', t_duration := 3600\<rparr>) = 3600"
  using getTimerDuration_dual_encoding [where t = sample_timer and e = sample_env]
    getTimerDuration_dual_encoding
      [where t = "sample_timer\<lparr>t_stop := Some ''2023-11-14T23:13:20+00:00'', t_duration := 3600\<rparr>"
         and e = sample_env]
  by (simp add: sample_timer_def sample_env_def)

subsection \<open>A pass whose fetch fails\<close>

lemma updateStatusBarText_effects:
  "updateStatusBarText e (s\<lparr>effects := es\<rparr>) = (updateStatusBarText e s)\<lparr>effects := es\<rparr>"
  by (simp add: updateStatusBarText_def Let_def)

lemma responseToTimeEntry_effects:
  "responseToTimeEntry (s\<lparr>effects := es\<rparr>) = responseToTimeEntry s"
  by (rule ext) (simp add: responseToTimeEntry_def)

lemma updateCurrentTimer_effects:
  "updateCurrentTimer e fetched (s\<lparr>effects := es\<rparr>) =
     (updateCurrentTimer e fetched s)
       \<lparr>effects := es @ new_effects s (updateCurrentTimer e fetched s)\<rparr>"
  by (simp add: updateCurrentTimer_def isApiAvailable_def emit_def new_effects_def Let_def
      updateStatusBarText_effects responseToTimeEntry_effects updateStatusBarText_def
      split: sum.splits prod.splits)

text \<open>
  C7. When the fetch of a pass fails, the pass only writes the two error lines to the
  console after the remote call: no notice, no write to the store, no summary request,
  and the held snapshot, the status, the interval and the status bar stay as they were.
  The next pass then does what it would have done without the failed one.
\<close>

theorem updateCurrentTimer_fetch_failure:
  "apiAvailable s = AVAILABLE \<longrightarrow>
     updateCurrentTimer e (Inl err) s =
       s\<lparr>effects := effects s @
            [RemoteCall CurrentTimer, ConsoleError ''Error reaching Toggl API'', ConsoleError err]\<rparr> \<and>
     updateCurrentTimer e' fetched (updateCurrentTimer e (Inl err) s) =
       (updateCurrentTimer e' fetched s)
         \<lparr>effects := effects (updateCurrentTimer e (Inl err) s) @
                      new_effects s (updateCurrentTimer e' fetched s)\<rparr>"
proof
  assume av: "apiAvailable s = AVAILABLE"
  have 1: "updateCurrentTimer e (Inl err) s =
       s\<lparr>effects := effects s @
            [RemoteCall CurrentTimer, ConsoleError ''Error reaching Toggl API'', ConsoleError err]\<rparr>"
    using av by (simp add: updateCurrentTimer_def isApiAvailable_def emit_def)
  have 2: "updateCurrentTimer e' fetched (updateCurrentTimer e (Inl err) s) =
       (updateCurrentTimer e' fetched s)
         \<lparr>effects := effects (updateCurrentTimer e (Inl err) s) @
                      new_effects s (updateCurrentTimer e' fetched s)\<rparr>"
    unfolding 1 by (simp add: updateCurrentTimer_effects)
  from 1 2 show "updateCurrentTimer e (Inl err) s =
       s\<lparr>effects := effects s @
            [RemoteCall CurrentTimer, ConsoleError ''Error reaching Toggl API'', ConsoleError err]\<rparr> \<and>
     updateCurrentTimer e' fetched (updateCurrentTimer e (Inl err) s) =
       (updateCurrentTimer e' fetched s)
         \<lparr>effects := effects (updateCurrentTimer e (Inl err) s) @
                      new_effects s (updateCurrentTimer e' fetched s)\<rparr>"
    by (rule conjI)
qed

theorem updateCurrentTimer_fetch_failure_witness:
  "apiAvailable (sample_service\<lparr>currentTimeEntry := Some sample_timer\<rparr>) = AVAILABLE \<and>
   updateCurrentTimer sample_env (Inl ''timeout'')
       (sample_service\<lparr>currentTimeEntry := Some sample_timer\<rparr>) =
     \<lparr>apiAvailable = AVAILABLE, currentTimeEntry = Some sample_timer,
      currentTimerInterval = Some 3,
      cachedProjects = [\<lparr>p_id = 5, p_name = ''Thesis'', p_hex_color = ''#06aaf5''\<rparr>],
      statusBarText = ''Connecting to Toggl...'',
      effects = [RemoteCall CurrentTimer, ConsoleError ''Error reaching Toggl API'',
                 ConsoleError ''timeout'']\<rparr> \<and>
   currentTimeEntry
     (updateCurrentTimer sample_env (Inr None)
        (updateCurrentTimer sample_env (Inl ''timeout'')
           (sample_service\<lparr>currentTimeEntry := Some sample_timer\<rparr>))) = None"
  using updateCurrentTimer_fetch_failure
    [where s = "sample_service\<lparr>currentTimeEntry := Some sample_timer\<rparr>" and e = sample_env
       and err = "''timeout''" and e' = sample_env and fetched = "Inr None"]
  by (simp add: sample_service_def sample_env_def updateCurrentTimer_def isApiAvailable_def
      emit_def drop_other_workspace_def detect_change_def updateStatusBarText_def)

subsection \<open>stopTimer\<close>

text \<open>
  C10. With the status \<open>AVAILABLE\<close> and no held entry, \<open>stopTimer\<close> leaves the
  service as it is: no remote call, no notice, no change of state. The remote stop is
  called exactly when the status is \<open>AVAILABLE\<close> and an entry is held, with the id
  of that entry.
\<close>

theorem stopTimer_without_entry:
  "(apiAvailable s = AVAILABLE \<and> currentTimeEntry s = None \<longrightarrow> stopTimer e stopped fetched s = s) \<and>
   (RemoteCall (StopTimer i) \<in> set (new_effects s (stopTimer e stopped fetched s)) \<longleftrightarrow>
      apiAvailable s = AVAILABLE \<and> map_option t_id (currentTimeEntry s) = Some i)"
proof -
  have 1: "apiAvailable s = AVAILABLE \<and> currentTimeEntry s = None \<longrightarrow>
      stopTimer e stopped fetched s = s"
    by (simp add: stopTimer_def isApiAvailable_def)
  have upd: "RemoteCall (StopTimer i) \<notin> set (new_effects s' (updateCurrentTimer e fetched s'))" for s'
    by (auto simp: updateCurrentTimer_def isApiAvailable_def emit_def new_effects_def Let_def
        updateStatusBarText_def split: sum.splits prod.splits)
  have 2: "RemoteCall (StopTimer i) \<in> set (new_effects s (stopTimer e stopped fetched s)) \<longleftrightarrow>
      apiAvailable s = AVAILABLE \<and> map_option t_id (currentTimeEntry s) = Some i"
  proof (cases "apiAvailable s = AVAILABLE")
    case False
    then show ?thesis
      by (cases "apiAvailable s")
        (simp_all add: stopTimer_def isApiAvailable_def noticeAPINotAvailable_def emit_def
          new_effects_def)
  next
    case True
    show ?thesis
    proof (cases "currentTimeEntry s")
      case None
      with True show ?thesis
        by (simp add: stopTimer_def isApiAvailable_def new_effects_def)
    next
      case (Some entry)
      let ?s1 = "emit [RemoteCall (StopTimer (t_id entry))] s"
      show ?thesis
      proof (cases stopped)
        case (Rejected reason)
        with True Some show ?thesis
          by (auto simp: stopTimer_def isApiAvailable_def new_effects_def emit_def)
      next
        case (Fulfilled u)
        have "updateCurrentTimer e fetched ?s1 =
          (updateCurrentTimer e fetched s)
            \<lparr>effects := (effects s @ [RemoteCall (StopTimer (t_id entry))]) @
                new_effects s (updateCurrentTimer e fetched s)\<rparr>"
          unfolding emit_def by (rule updateCurrentTimer_effects)
        then have "new_effects s (stopTimer e stopped fetched s) =
          RemoteCall (StopTimer (t_id entry)) # new_effects s (updateCurrentTimer e fetched s)"
          using True Some Fulfilled
          by (simp add: stopTimer_def isApiAvailable_def new_effects_def)
        with upd [of s] True Some show ?thesis by auto
      qed
    qed
  qed
  from 1 2 show ?thesis by (rule conjI)
qed

theorem stopTimer_without_entry_witness:
  "apiAvailable sample_service = AVAILABLE \<and> currentTimeEntry sample_service = None \<and>
   stopTimer sample_env (Fulfilled ()) (Inr None) sample_service = sample_service \<and>
   RemoteCall (StopTimer 9) \<in> set (new_effects (sample_service\<lparr>currentTimeEntry := Some sample_timer\<rparr>)
      (stopTimer sample_env (Fulfilled ()) (Inr None)
         (sample_service\<lparr>currentTimeEntry := Some sample_timer\<rparr>)))"
  using stopTimer_without_entry
      [where s = sample_service and e = sample_env and stopped = "Fulfilled ()" and fetched = "Inr None"]
    stopTimer_without_entry
      [where s = "sample_service\<lparr>currentTimeEntry := Some sample_timer\<rparr>" and e = sample_env
         and stopped = "Fulfilled ()" and fetched = "Inr None" and i = 9]
  by (simp add: sample_service_def sample_timer_def)

section \<open>Properties of the request queue\<close>

lemma serial_history_Suc:
  "k < length outs \<Longrightarrow>
     serial_history outs (Suc k) = serial_history outs k @ [Begun k, Settled k (outs ! k)]"
  by (simp add: serial_history_def take_Suc_conv_app_nth nth_enumerate_eq)

lemma serial_history_append:
  "k \<le> length outs \<Longrightarrow> serial_history (outs @ extra) k = serial_history outs k"
  by (simp add: serial_history_def enumerate_append_eq)

lemma serial_history_settled:
  "i < k \<Longrightarrow> k \<le> length outs \<Longrightarrow> Settled i (outs ! i) \<in> set (serial_history outs k)"
proof (induction k)
  case 0
  then show ?case by simp
next
  case (Suc k)
  then show ?case
    by (cases "i = k") (auto simp: serial_history_Suc)
qed

lemma begins_after_snoc:
  assumes "begins_after_earlier_settled h"
    and "\<And>j. ev = Begun j \<Longrightarrow> \<forall>i<j. \<exists>outcome. Settled i outcome \<in> set h"
  shows "begins_after_earlier_settled (h @ [ev])"
  unfolding begins_after_earlier_settled_def
proof (intro allI impI)
  fix pre post j i
  assume eq: "h @ [ev] = pre @ Begun j # post" and i: "i < j"
  show "\<exists>outcome. Settled i outcome \<in> set pre"
  proof (cases post rule: rev_cases)
    case Nil
    with eq have "h = pre" "ev = Begun j" by simp_all
    with assms(2) i show ?thesis by blast
  next
    case (snoc post' x)
    with eq have "h = pre @ Begun j # post'" by simp
    with assms(1) i show ?thesis
      unfolding begins_after_earlier_settled_def by blast
  qed
qed

lemma serial_history_settled_own:
  "k \<le> length outs \<Longrightarrow> Settled i outcome \<in> set (serial_history outs k) \<Longrightarrow>
     i < k \<and> outcome = outs ! i"
proof (induction k)
  case 0
  then show ?case by (simp add: serial_history_def)
next
  case (Suc k)
  then show ?case
    by (auto simp: serial_history_Suc less_Suc_eq)
qed

lemma serial_history_begins_after:
  "k \<le> length outs \<Longrightarrow> begins_after_earlier_settled (serial_history outs k)"
proof (induction k)
  case 0
  then show ?case
    by (simp add: serial_history_def begins_after_earlier_settled_def)
next
  case (Suc k)
  then have k: "k < length outs" by simp
  have a: "begins_after_earlier_settled (serial_history outs k @ [Begun k])"
  proof (rule begins_after_snoc)
    show "begins_after_earlier_settled (serial_history outs k)"
      using Suc by simp
  next
    fix j assume "Begun k = (Begun j :: 'a q_event)"
    then have "j = k" by simp
    then show "\<forall>i<j. \<exists>outcome. Settled i outcome \<in> set (serial_history outs k)"
      using serial_history_settled [of _ k outs] k by auto
  qed
  have "begins_after_earlier_settled ((serial_history outs k @ [Begun k]) @ [Settled k (outs ! k)])"
    using a by (rule begins_after_snoc) simp
  then show ?case
    using k by (simp add: serial_history_Suc)
qed

lemma serial_history_running_begins_after:
  assumes "k < length outs"
  shows "begins_after_earlier_settled (serial_history outs k @ [Begun k])"
proof (rule begins_after_snoc)
  show "begins_after_earlier_settled (serial_history outs k)"
    using assms by (simp add: serial_history_begins_after)
next
  fix j assume "Begun k = (Begun j :: 'a q_event)"
  then have "j = k" by simp
  then show "\<forall>i<j. \<exists>outcome. Settled i outcome \<in> set (serial_history outs k)"
    using serial_history_settled [of _ k outs] assms by auto
qed

lemma q_inv_empty: "q_inv [] 0 empty_queue"
  by (simp add: q_inv_def empty_queue_def serial_history_def)

lemma q_inv_enqueue:
  assumes "q_inv outs k q"
  shows "q_inv (outs @ [outcome]) k (enqueue outcome q)"
proof (cases "k = length outs")
  case True
  with assms have q: "submitted q = length outs" "running q = None" "waiting q = []"
    "history q = serial_history outs k"
    by (simp_all add: q_inv_def)
  show ?thesis
    using True q
    by (simp add: q_inv_def enqueue_def dequeue_def serial_history_append)
next
  case False
  with assms have q: "submitted q = length outs" "k < length outs"
    "running q = Some (k, outs ! k)" "waiting q = drop (Suc k) (enumerate 0 outs)"
    "history q = serial_history outs k @ [Begun k]"
    by (simp_all add: q_inv_def)
  show ?thesis
    using q
    by (simp add: q_inv_def enqueue_def dequeue_def serial_history_append enumerate_append_eq
        nth_append)
qed

lemma q_inv_settle:
  assumes "q_inv outs k q"
  shows "q_inv outs (min (Suc k) (length outs)) (settle q)"
proof (cases "k = length outs")
  case True
  with assms show ?thesis
    by (simp add: q_inv_def settle_def)
next
  case False
  with assms have q: "submitted q = length outs" "k < length outs"
    "running q = Some (k, outs ! k)" "waiting q = drop (Suc k) (enumerate 0 outs)"
    "history q = serial_history outs k @ [Begun k]"
    by (simp_all add: q_inv_def)
  show ?thesis
  proof (cases "Suc k = length outs")
    case True
    have "serial_history outs (length outs) =
        serial_history outs k @ [Begun k, Settled k (outs ! k)]"
      using serial_history_Suc [OF q(2)] True by simp
    then show ?thesis
      using q True by (simp add: q_inv_def settle_def dequeue_def)
  next
    case False
    with q have k2: "Suc k < length outs" by simp
    then have "drop (Suc k) (enumerate 0 outs) =
        (Suc k, outs ! Suc k) # drop (Suc (Suc k)) (enumerate 0 outs)"
      by (simp add: Cons_nth_drop_Suc [symmetric] nth_enumerate_eq)
    then show ?thesis
      using q k2 by (simp add: q_inv_def settle_def dequeue_def serial_history_Suc)
  qed
qed

lemma q_inv_run:
  "q_inv outs k q \<Longrightarrow> \<exists>k'. q_inv (outs @ outcomes acts) k' (q_run acts q)"
proof (induction acts arbitrary: outs k q)
  case Nil
  then show ?case by auto
next
  case (Cons a acts)
  show ?case
  proof (cases a)
    case (Enqueue outcome)
    have "q_inv (outs @ [outcome]) k (q_step a q)"
      using Cons.prems Enqueue by (simp add: q_step_def q_inv_enqueue)
    from Cons.IH [OF this] show ?thesis
      using Enqueue by simp
  next
    case Settle
    have "q_inv outs (min (Suc k) (length outs)) (q_step a q)"
      using Cons.prems Settle by (simp add: q_step_def q_inv_settle)
    from Cons.IH [OF this] show ?thesis
      using Settle by simp
  qed
qed

lemma q_inv_drain:
  "q_inv outs k q \<Longrightarrow> q_inv outs (min (k + m) (length outs)) (q_run (replicate m Settle) q)"
proof (induction m arbitrary: k q)
  case 0
  then show ?case by (simp add: q_inv_def)
next
  case (Suc m)
  have "q_inv outs (min (Suc k) (length outs)) (settle q)"
    using Suc.prems by (rule q_inv_settle)
  from Suc.IH [OF this]
  have "q_inv outs (min (min (Suc k) (length outs) + m) (length outs))
      (q_run (replicate m Settle) (settle q))" .
  moreover have "min (min (Suc k) (length outs) + m) (length outs) = min (k + Suc m) (length outs)"
    by simp
  ultimately show ?case by (simp add: q_step_def)
qed

lemma q_run_append: "q_run (as @ bs) q = q_run bs (q_run as q)"
  by (induction as arbitrary: q) simp_all

lemma q_inv_history:
  "q_inv outs k q \<Longrightarrow>
     history q = serial_history outs k @ (if k = length outs then [] else [Begun k])"
  by (simp add: q_inv_def)

text \<open>
  C8. Whatever is submitted and whenever the running promises settle, the history of the
  queue is the serial one: the operations begin in the order of submission, each after the
  one before it has settled, followed at most by the begin of the one now running. So no
  operation begins before every operation submitted earlier has settled; every settlement
  delivers the outcome of its own operation; and once the running promises have settled
  often enough, every submitted operation has run and settled, the ones after a rejected
  operation too.
\<close>

theorem request_queue_serial_fifo:
  "\<exists>k \<le> length (outcomes acts).
     history (q_run acts empty_queue) =
       serial_history (outcomes acts) k @ (if k = length (outcomes acts) then [] else [Begun k]) \<and>
     begins_after_earlier_settled (history (q_run acts empty_queue)) \<and>
     (\<forall>i outcome. Settled i outcome \<in> set (history (q_run acts empty_queue)) \<longrightarrow>
        i < length (outcomes acts) \<and> outcome = outcomes acts ! i) \<and>
     history (q_run (acts @ replicate (length (outcomes acts)) Settle) empty_queue) =
       serial_history (outcomes acts) (length (outcomes acts))"
proof -
  let ?outs = "outcomes acts"
  let ?q = "q_run acts (empty_queue :: 'a queue)"
  obtain k where inv: "q_inv ?outs k ?q"
    using q_inv_run [OF q_inv_empty, of acts] by auto
  then have k: "k \<le> length ?outs"
    by (simp add: q_inv_def)
  have h: "history ?q = serial_history ?outs k @ (if k = length ?outs then [] else [Begun k])"
    using inv by (rule q_inv_history)
  have b: "begins_after_earlier_settled (history ?q)"
  proof (cases "k = length ?outs")
    case True
    then show ?thesis
      using h serial_history_begins_after [of k ?outs] by simp
  next
    case False
    with k have "k < length ?outs" by simp
    then show ?thesis
      using h False serial_history_running_begins_after [of k ?outs] by simp
  qed
  have own: "\<forall>i outcome. Settled i outcome \<in> set (history ?q) \<longrightarrow>
        i < length ?outs \<and> outcome = ?outs ! i"
  proof (intro allI impI)
    fix i outcome
    assume "Settled i outcome \<in> set (history ?q)"
    then have "Settled i outcome \<in> set (serial_history ?outs k)"
      unfolding h by (auto split: if_splits)
    from serial_history_settled_own [OF k this] k
    show "i < length ?outs \<and> outcome = ?outs ! i" by simp
  qed
  have "q_inv ?outs (min (k + length ?outs) (length ?outs))
      (q_run (replicate (length ?outs) Settle) ?q)"
    using inv by (rule q_inv_drain)
  then have "history (q_run (replicate (length ?outs) Settle) ?q) =
      serial_history ?outs (length ?outs)"
    by (simp add: q_inv_def)
  then have d: "history (q_run (acts @ replicate (length ?outs) Settle) empty_queue) =
      serial_history ?outs (length ?outs)"
    by (simp add: q_run_append)
  from k h b own d show ?thesis by blast
qed

theorem request_queue_serial_fifo_witness:
  "history (q_run [Enqueue (Fulfilled (1::nat)), Enqueue (Rejected ''timeout''),
                   Enqueue (Fulfilled 3), Settle, Settle] empty_queue) =
     [Begun 0, Settled 0 (Fulfilled 1), Begun 1, Settled 1 (Rejected ''timeout''), Begun 2] \<and>
   history (q_run ([Enqueue (Fulfilled (1::nat)), Enqueue (Rejected ''timeout''),
                    Enqueue (Fulfilled 3), Settle, Settle] @ [Settle, Settle, Settle])
              empty_queue) =
     [Begun 0, Settled 0 (Fulfilled 1), Begun 1, Settled 1 (Rejected ''timeout''), Begun 2,
      Settled 2 (Fulfilled 3)]"
  using request_queue_serial_fifo
    [of "[Enqueue (Fulfilled (1::nat)), Enqueue (Rejected ''timeout''), Enqueue (Fulfilled 3),
          Settle, Settle]"]
  by (simp add: q_step_def enqueue_def dequeue_def settle_def empty_queue_def)

end
